theory Spec2Isabelle
  imports Main "HOL-Library.AList"
begin

section \<open>Terms, statements and the graph\<close>

text \<open>
  The serializer of \<^verbatim>\<open>src/rdfa.py\<close> works on rdflib terms. A term is an IRI
  (\<^verbatim>\<open>URIRef\<close>), a blank node (\<^verbatim>\<open>BNode\<close>) or a literal with its lexical
  form, language and datatype IRI. All three are string subclasses in rdflib:
  \<open>term_str\<close> is the string a term is when it is formatted with \<^verbatim>\<open>%s\<close> or
  tested with \<^verbatim>\<open>startswith\<close>.
\<close>

datatype rdf_term =
    URIRef string
  | BNode string
  | Literal string "string option" "string option"

fun term_str :: "rdf_term \<Rightarrow> string" where
  "term_str (URIRef u) = u"
| "term_str (BNode b) = b"
| "term_str (Literal l lang dt) = l"

fun is_URIRef :: "rdf_term \<Rightarrow> bool" where
  "is_URIRef (URIRef u) = True"
| "is_URIRef t = False"

fun is_BNode :: "rdf_term \<Rightarrow> bool" where
  "is_BNode (BNode b) = True"
| "is_BNode t = False"

fun is_Literal :: "rdf_term \<Rightarrow> bool" where
  "is_Literal (Literal l lang dt) = True"
| "is_Literal t = False"

text \<open>The attributes \<^verbatim>\<open>language\<close> and \<^verbatim>\<open>datatype\<close>, read on literals only.\<close>

fun language :: "rdf_term \<Rightarrow> string option" where
  "language (Literal l lang dt) = lang"
| "language t = None"

fun datatype_of :: "rdf_term \<Rightarrow> string option" where
  "datatype_of (Literal l lang dt) = dt"
| "datatype_of t = None"

type_synonym triple = "rdf_term \<times> rdf_term \<times> rdf_term"

type_synonym pattern = "rdf_term option \<times> rdf_term option \<times> rdf_term option"

text \<open>
  The graph (\<^verbatim>\<open>self.store\<close>) is rdflib's, not this repository's. It is taken
  as a record: the statements in the order the store iterates them (a list standing for
  the set of statements), and the collaborators the serializer calls and that are
  not triple queries:
  \<^item> \<open>compute_qname t generate\<close> is \<^verbatim>\<open>compute_qname(uri, generate)\<close> of the
    graph and of its namespace manager: \<open>Some (prefix, namespace, local)\<close>, or
    \<open>None\<close> when it raises;
  \<^item> \<open>store_prefix t\<close> is \<^verbatim>\<open>self.store.store.prefix(uri)\<close>;
  \<^item> \<open>literal_bool t\<close> is the truth value Python gives a literal in a condition
    (rdflib decides it from the literal's value).
\<close>

record graph =
  triples :: "triple list"
  compute_qname :: "rdf_term \<Rightarrow> bool \<Rightarrow> (string \<times> string \<times> string) option"
  store_prefix :: "rdf_term \<Rightarrow> string option"
  literal_bool :: "rdf_term \<Rightarrow> bool"

definition RDF_ns :: string where
  "RDF_ns = ''http://www.w3.org/1999/02/22-rdf-syntax-ns#''"

definition RDFS_ns :: string where
  "RDFS_ns = ''http://www.w3.org/2000/01/rdf-schema#''"

definition OWL_NS :: string where
  "OWL_NS = ''http://www.w3.org/2002/07/owl#''"

definition RDF_type :: rdf_term where
  "RDF_type = URIRef (RDF_ns @ ''type'')"

definition RDF_first :: rdf_term where
  "RDF_first = URIRef (RDF_ns @ ''first'')"

definition RDF_rest :: rdf_term where
  "RDF_rest = URIRef (RDF_ns @ ''rest'')"

definition RDF_nil :: rdf_term where
  "RDF_nil = URIRef (RDF_ns @ ''nil'')"

definition RDFS_Resource :: rdf_term where
  "RDFS_Resource = URIRef (RDFS_ns @ ''Resource'')"

definition RDFS_Class :: rdf_term where
  "RDFS_Class = URIRef (RDFS_ns @ ''Class'')"

definition OWL_Class :: rdf_term where
  "OWL_Class = URIRef (OWL_NS @ ''Class'')"

subsection \<open>Python and rdflib helpers\<close>

text \<open>
  Truth of a term in a Python condition: an IRI or a blank node is a string, true when
  it is not empty; a literal's truth is the graph's \<open>literal_bool\<close>. \<open>truthy_opt\<close> is the
  truth of a value that may be \<^verbatim>\<open>None\<close>.
\<close>

fun truthy :: "graph \<Rightarrow> rdf_term \<Rightarrow> bool" where
  "truthy G (URIRef u) = (u \<noteq> [])"
| "truthy G (BNode b) = (b \<noteq> [])"
| "truthy G (Literal l lang dt) = literal_bool G (Literal l lang dt)"

fun truthy_opt :: "graph \<Rightarrow> rdf_term option \<Rightarrow> bool" where
  "truthy_opt G None = False"
| "truthy_opt G (Some t) = truthy G t"

text \<open>\<^verbatim>\<open>rdflib.util.first\<close> and \<^verbatim>\<open>rdflib.util.more_than\<close>.\<close>

fun first :: "'a list \<Rightarrow> 'a option" where
  "first [] = None"
| "first (x # xs) = Some x"

definition more_than :: "'a list \<Rightarrow> nat \<Rightarrow> bool" where
  "more_than sequence number = (number < length sequence)"

text \<open>\<^verbatim>\<open>dict.get(key, default)\<close> on a dictionary kept as an association list.\<close>

definition dict_get :: "('k \<times> 'v) list \<Rightarrow> 'k \<Rightarrow> 'v \<Rightarrow> 'v" where
  "dict_get d k dflt = (case map_of d k of None \<Rightarrow> dflt | Some v \<Rightarrow> v)"

subsection \<open>Triple queries\<close>

fun matches :: "pattern \<Rightarrow> triple \<Rightarrow> bool" where
  "matches (ps, pp, po) (s, p, ob) =
     ((ps = None \<or> ps = Some s) \<and> (pp = None \<or> pp = Some p) \<and> (po = None \<or> po = Some ob))"

definition triples_of :: "graph \<Rightarrow> pattern \<Rightarrow> triple list" where
  "triples_of G pat = filter (matches pat) (triples G)"

text \<open>\<^verbatim>\<open>pattern in store\<close>: some statement matches.\<close>

definition in_store :: "graph \<Rightarrow> pattern \<Rightarrow> bool" where
  "in_store G pat = (triples_of G pat \<noteq> [])"

definition subjects :: "graph \<Rightarrow> rdf_term option \<Rightarrow> rdf_term option \<Rightarrow> rdf_term list" where
  "subjects G pp po = map fst (triples_of G (None, pp, po))"

definition predicates :: "graph \<Rightarrow> rdf_term list" where
  "predicates G = map (\<lambda>t. fst (snd t)) (triples_of G (None, None, None))"

definition objects :: "graph \<Rightarrow> rdf_term option \<Rightarrow> rdf_term option \<Rightarrow> rdf_term list" where
  "objects G ps pp = map (\<lambda>t. snd (snd t)) (triples_of G (ps, pp, None))"

definition predicate_objects :: "graph \<Rightarrow> rdf_term \<Rightarrow> (rdf_term \<times> rdf_term) list" where
  "predicate_objects G s = map snd (triples_of G (Some s, None, None))"

text \<open>\<^verbatim>\<open>triples_choices((s, p, [o1, o2, ...]))\<close>: the statements of each choice in turn.\<close>

definition triples_choices :: "graph \<Rightarrow> rdf_term \<Rightarrow> rdf_term \<Rightarrow> rdf_term list \<Rightarrow> triple list" where
  "triples_choices G s p choices = concat (map (\<lambda>c. triples_of G (Some s, Some p, Some c)) choices)"

text \<open>\<^verbatim>\<open>Graph.value(subject, predicate)\<close>: the first object, or \<^verbatim>\<open>None\<close>.\<close>

definition graph_value :: "graph \<Rightarrow> rdf_term \<Rightarrow> rdf_term \<Rightarrow> rdf_term option" where
  "graph_value G s p = first (objects G (Some s) (Some p))"

section \<open>The serialization session\<close>

text \<open>
  The serializer's mutable attributes. \<open>serialized\<close> is the dictionary
  \<^verbatim>\<open>self.__serialized\<close>, whose values are all 1: a set of terms. \<open>namespaces\<close> and
  \<open>ns_rewrite\<close> are the dictionaries of \<^verbatim>\<open>__init__\<close>. \<open>out\<close> is what has been
  written to the stream, one entry for each call of \<^verbatim>\<open>write\<close>, oldest first.
\<close>

record session =
  serialized :: "rdf_term set"
  namespaces :: "(string \<times> string) list"
  ns_rewrite :: "(string \<times> string) list"
  out :: "string list"
  max_depth :: int
  base :: "string option"

definition write_str :: "string \<Rightarrow> session \<Rightarrow> session" where
  "write_str uni st = st\<lparr>out := out st @ [uni]\<rparr>"

subsection \<open>addNamespace and getQName\<close>

text \<open>The loop \<^verbatim>\<open>while p in self.namespaces: p = "p" + p\<close>.\<close>

function fresh_prefix :: "(string \<times> string) list \<Rightarrow> string \<Rightarrow> string" where
  "fresh_prefix ns p = (if map_of ns p \<noteq> None then fresh_prefix ns (CHR ''p'' # p) else p)"
  by pat_completeness auto
termination
proof (relation "measure (\<lambda>(ns, p). Suc (Max (insert 0 (length ` fst ` set ns))) - length p)")
  show "wf (measure (\<lambda>(ns, p). Suc (Max (insert 0 (length ` fst ` set ns))) - length p))"
    by simp
next
  fix ns :: "(string \<times> string) list" and p :: string
  assume "map_of ns p \<noteq> None"
  then have "p \<in> fst ` set ns"
    by (simp add: map_of_eq_None_iff)
  then have "length p \<in> insert 0 (length ` fst ` set ns)"
    by blast
  then have "length p \<le> Max (insert 0 (length ` fst ` set ns))"
    by (intro Max_ge) simp_all
  then show "((ns, CHR ''p'' # p), (ns, p))
      \<in> measure (\<lambda>(ns, p). Suc (Max (insert 0 (length ` fst ` set ns))) - length p)"
    by simp
qed

declare fresh_prefix.simps [simp del]

text \<open>
  \<^verbatim>\<open>addNamespace(prefix, namespace)\<close> returns the prefix to use and may add
  an entry to \<^verbatim>\<open>self._ns_rewrite\<close>. \<^verbatim>\<open>prefix > ''\<close> is true of every
  string but the empty one.
\<close>

definition starts_with_underscore :: "string \<Rightarrow> bool" where
  "starts_with_underscore prefix = (case prefix of [] \<Rightarrow> False | c # cs \<Rightarrow> c = CHR ''_'')"

definition addNamespace :: "session \<Rightarrow> string \<Rightarrow> string \<Rightarrow> string \<times> session" where
  "addNamespace st prefix namespace =
     (let st' =
        (if starts_with_underscore prefix \<or> dict_get (namespaces st) prefix namespace \<noteq> namespace
         then (if map_of (ns_rewrite st) prefix = None
               then st\<lparr>ns_rewrite :=
                      (prefix, fresh_prefix (namespaces st) (CHR ''p'' # prefix)) # ns_rewrite st\<rparr>
               else st)
         else st)
      in (dict_get (ns_rewrite st') prefix prefix, st'))"

text \<open>
  \<^verbatim>\<open>getQName(uri, gen_prefix)\<close>: \<^verbatim>\<open>None\<close> for a term that is not an IRI, for an
  IRI with no compact name that is not a namespace of the store either, and for a local
  part with a dot.
\<close>

definition getQName :: "graph \<Rightarrow> session \<Rightarrow> rdf_term \<Rightarrow> bool \<Rightarrow> string option \<times> session" where
  "getQName G st uri gen_prefix =
     (if \<not> is_URIRef uri then (None, st)
      else
        (let parts =
           (case compute_qname G uri gen_prefix of
              Some ps \<Rightarrow> Some ps
            | None \<Rightarrow>
                (case store_prefix G uri of
                   Some pfx \<Rightarrow> Some (pfx, term_str uri, [])
                 | None \<Rightarrow> None))
         in case parts of
              None \<Rightarrow> (None, st)
            | Some (prefix, namespace, local) \<Rightarrow>
                if CHR ''.'' \<in> set local then (None, st)
                else (let (prefix', st') = addNamespace st prefix namespace
                      in (Some (prefix' @ '':'' @ local), st'))))"


section \<open>Rendering\<close>

definition indent_string :: string where
  "indent_string = ''  ''"

text \<open>\<^verbatim>\<open>"\n" + indent_string * depth\<close>; a string times a negative number is empty.\<close>

definition indent_of :: "int \<Rightarrow> string" where
  "indent_of depth = CHR 0x0A # concat (replicate (nat depth) indent_string)"

text \<open>\<^verbatim>\<open>fix(val)\<close> strips a leading \<^verbatim>\<open>_:\<close>.\<close>

definition fix_id :: "string \<Rightarrow> string" where
  "fix_id val = (if take 2 val = ''_:'' then drop 2 val else val)"

text \<open>
  \<^verbatim>\<open>Serializer.relativize\<close> of rdflib: an IRI that starts with the base loses it
  (\<^verbatim>\<open>uri.replace(base, "", 1)\<close> removes the occurrence at the start).
\<close>

definition relativize :: "session \<Rightarrow> string \<Rightarrow> string" where
  "relativize st uri =
     (case base st of
        None \<Rightarrow> uri
      | Some b \<Rightarrow> if take (length b) uri = b then drop (length b) uri else uri)"

text \<open>\<^verbatim>\<open>"%s" % x\<close> for the result of \<^verbatim>\<open>getQName\<close>, which may be \<^verbatim>\<open>None\<close>.\<close>

definition pct_s :: "string option \<Rightarrow> string" where
  "pct_s x = (case x of None \<Rightarrow> ''None'' | Some v \<Rightarrow> v)"

text \<open>Truth of an optional string (\<^verbatim>\<open>object.language\<close>, \<^verbatim>\<open>object.datatype\<close>).\<close>

definition str_truthy :: "string option \<Rightarrow> bool" where
  "str_truthy x = (case x of None \<Rightarrow> False | Some v \<Rightarrow> v \<noteq> [])"

subsection \<open>The subject's block\<close>

text \<open>
  Lines 147 to 154 of \<^verbatim>\<open>subject\<close>: the first \<^verbatim>\<open>rdf:type\<close> object, dropped when
  the namespace manager cannot give it a compact name (\<^verbatim>\<open>self.nm.qname(type)\<close>
  raises, also for \<^verbatim>\<open>None\<close>), and the element \<^verbatim>\<open>type or RDFS.Resource\<close>.
\<close>

definition subject_type :: "graph \<Rightarrow> rdf_term \<Rightarrow> rdf_term option" where
  "subject_type G s =
     (case first (objects G (Some s) (Some RDF_type)) of
        None \<Rightarrow> None
      | Some t \<Rightarrow> if compute_qname G t True = None then None else Some t)"

definition element_of :: "graph \<Rightarrow> rdf_term option \<Rightarrow> rdf_term" where
  "element_of G ty =
     (case ty of
        None \<Rightarrow> RDFS_Resource
      | Some t \<Rightarrow> if truthy G t then t else RDFS_Resource)"

text \<open>The three opening tags of lines 156 to 162.\<close>

definition open_about :: "string \<Rightarrow> string option \<Rightarrow> string \<Rightarrow> string" where
  \<open>open_about indent q about = indent @ ''<div typeof="'' @ pct_s q @ ''" about="'' @ about @ ''">''\<close>

definition open_plain :: "string \<Rightarrow> string option \<Rightarrow> string" where
  \<open>open_plain indent q = indent @ ''<div typeof="'' @ pct_s q @ ''">''\<close>

text \<open>Lines 146 to 162: mark the subject and write its opening tag.\<close>

definition subject_open :: "graph \<Rightarrow> session \<Rightarrow> rdf_term \<Rightarrow> int \<Rightarrow> session" where
  "subject_open G st s depth =
     (let indent = indent_of depth;
          st1 = st\<lparr>serialized := insert s (serialized st)\<rparr>;
          (q, st2) = getQName G st1 (element_of G (subject_type G s)) True
      in if is_BNode s then
           (if more_than (triples_of G (None, None, Some s)) 1
            then write_str (open_about indent q (fix_id (term_str s))) st2
            else write_str (open_plain indent q) st2)
         else write_str (open_about indent q (relativize st2 (term_str s))) st2)"

text \<open>
  Lines 164 to 166: the (predicate, object) pairs the loop hands to \<^verbatim>\<open>predicate\<close>,
  all but the \<^verbatim>\<open>rdf:type\<close> statement of the type chosen above.
\<close>

definition subject_edges :: "graph \<Rightarrow> rdf_term \<Rightarrow> (rdf_term \<times> rdf_term) list" where
  "subject_edges G s =
     (if in_store G (Some s, None, None)
      then filter (\<lambda>(p, ob). \<not> (p = RDF_type \<and> Some ob = subject_type G s)) (predicate_objects G s)
      else [])"

definition close_block :: "string \<Rightarrow> string" where
  "close_block indent = indent @ ''</div>''"

subsection \<open>The branches of predicate that do not recurse\<close>

definition rel_open :: "string \<Rightarrow> string option \<Rightarrow> string" where
  \<open>rel_open indent q = indent @ ''<div rel="'' @ pct_s q @ ''"''\<close>

definition resource_attr :: "string \<Rightarrow> string" where
  \<open>resource_attr target = '' resource="'' @ target @ ''">''\<close>

text \<open>Lines 176 to 183: a literal object.\<close>

definition predicate_literal :: "graph \<Rightarrow> session \<Rightarrow> rdf_term \<Rightarrow> rdf_term \<Rightarrow> int \<Rightarrow> session" where
  \<open>predicate_literal G st p ob depth =
     (let (q, st1) = getQName G st p True;
          st2 = write_str (indent_of depth @ ''<div property="'' @ pct_s q @ ''"'') st1;
          st3 =
            (if str_truthy (language ob) then
               write_str ('' xml:lang="'' @ pct_s (language ob) @ ''"'') st2
             else if str_truthy (datatype_of ob) then
               (let (qd, st2') = getQName G st2 (URIRef (pct_s (datatype_of ob))) True
                in write_str ('' datatype="'' @ pct_s qd @ ''"'') st2')
             else st2);
          st4 = write_str ('' content="'' @ term_str ob @ ''">'') st3
      in write_str ''</div>'' st4)\<close>

text \<open>Lines 184 to 190: an object already serialized, or with no statement of its own.\<close>

definition predicate_reference :: "graph \<Rightarrow> session \<Rightarrow> rdf_term \<Rightarrow> rdf_term \<Rightarrow> int \<Rightarrow> session" where
  "predicate_reference G st p ob depth =
     (let (q, st1) = getQName G st p True;
          st2 = write_str (rel_open (indent_of depth) q) st1;
          st3 =
            (if is_BNode ob \<and> more_than (triples_of G (None, None, Some ob)) 0
             then write_str (resource_attr (fix_id (term_str ob))) st2
             else write_str (resource_attr (relativize st2 (term_str ob))) st2)
      in write_str ''</div>'' st3)"


subsection \<open>Collections\<close>

text \<open>
  \<^verbatim>\<open>Collection(store, object)\<close> iterates with rdflib's \<^verbatim>\<open>Graph.items\<close> (as of
  rdflib 4.2 and later):
  \<^verbatim>\<open>
  chain = set([list])
  while list:
      item = self.value(list, RDF.first)
      if item is not None:
          yield item
      list = self.value(list, RDF.rest)
      if list in chain:
          raise ValueError("List contains a recursive rdf:rest reference")
      chain.add(list)
  \<close>
  \<open>graph_items G chain l\<close> is the loop from the cell \<open>l\<close> on: the items it yields, and
  whether it ends by raising. The statements are finitely many and every cell visited is
  new, so the loop ends.
  The constructor of \<^verbatim>\<open>Collection\<close> is taken to leave the statements as they are,
  as it does for a list that ends in \<^verbatim>\<open>rdf:nil\<close>.
\<close>

lemma first_in_set: "first xs = Some x \<Longrightarrow> x \<in> set xs"
  by (cases xs) auto

lemma matches_any [simp]: "matches (None, None, None) t"
  by (cases t) simp

lemma triples_of_any [simp]: "triples_of G (None, None, None) = triples G"
  by (simp add: triples_of_def)

lemma objects_subset: "set (objects G ps pp) \<subseteq> set (objects G None None)"
  by (force simp: objects_def triples_of_def)

lemma graph_value_in_objects:
  "graph_value G s p = Some x \<Longrightarrow> x \<in> set (objects G None None)"
  using objects_subset [of G "Some s" "Some p"] first_in_set [of "objects G (Some s) (Some p)" x]
  by (auto simp: graph_value_def)

function graph_items :: "graph \<Rightarrow> rdf_term set \<Rightarrow> rdf_term \<Rightarrow> rdf_term list \<times> bool" where
  "graph_items G chain l =
     (if \<not> truthy G l then ([], False)
      else
        (let ys = (case graph_value G l RDF_first of None \<Rightarrow> [] | Some item \<Rightarrow> [item])
         in case graph_value G l RDF_rest of
              None \<Rightarrow> (ys, False)
            | Some l' \<Rightarrow>
                if l' \<in> chain then (ys, True)
                else (case graph_items G (insert l' chain) l' of (zs, raised) \<Rightarrow> (ys @ zs, raised))))"
  by pat_completeness auto

termination
proof (relation "measure (\<lambda>(G, chain, l). card (set (objects G None None) - chain))")
  show "wf (measure (\<lambda>(G, chain, l). card (set (objects G None None) - chain)))"
    by simp
next
  fix G :: graph and chain :: "rdf_term set" and l ys l'
  assume "graph_value G l RDF_rest = Some l'" and "l' \<notin> chain"
  then have "l' \<in> set (objects G None None) - chain"
    by (simp add: graph_value_in_objects)
  then have "card (set (objects G None None) - insert l' chain) < card (set (objects G None None) - chain)"
    by (metis Diff_insert List.finite_set card_Diff1_less finite_Diff)
  then show "((G, insert l' chain, l'), (G, chain, l))
      \<in> measure (\<lambda>(G, chain, l). card (set (objects G None None) - chain))"
    by simp
qed

declare graph_items.simps [simp del]

text \<open>
  What ends a call: it returns, with the session as it is then, or it raises, and the
  session is as the exception left it. A call that runs out of fuel (below) has no outcome.
\<close>

datatype error = AssertionError | ValueError | ComputeQNameError

datatype outcome = Normal session | Raised error session

fun session_of :: "outcome \<Rightarrow> session" where
  "session_of (Normal st) = st"
| "session_of (Raised e st) = st"

text \<open>
  Lines 205 to 212: the body of the loop over the collection's items.
  \<open>list_item_element\<close> is the element written for an item, one of three by its kind.
\<close>

definition list_item_element :: "string \<Rightarrow> string option \<Rightarrow> session \<Rightarrow> rdf_term \<Rightarrow> string" where
  \<open>list_item_element indent q st item =
     (if is_BNode item then
        indent @ ''<div inlist="" rel="'' @ pct_s q @ ''" resource="''
          @ fix_id (term_str item) @ ''"></div>''
      else if is_URIRef item then
        indent @ ''<div inlist="" rel="'' @ pct_s q @ ''" resource="''
          @ relativize st (term_str item) @ ''"></div>''
      else
        indent @ ''<div inlist="" property="'' @ pct_s q @ ''" content="''
          @ term_str item @ ''"></div>'')\<close>

definition list_item :: "graph \<Rightarrow> rdf_term \<Rightarrow> int \<Rightarrow> session \<Rightarrow> rdf_term \<Rightarrow> session" where
  "list_item G p depth st item =
     (let (q, st1) = getQName G st p True;
          st2 = write_str (list_item_element (indent_of depth) q st1 item) st1
      in if \<not> is_URIRef item then st2\<lparr>serialized := insert item (serialized st2)\<rparr> else st2)"

text \<open>
  Lines 192 to 212: the test for a collection head, and the branch. The warning of
  lines 197 to 201 goes to Python's warning machinery, not to the stream; it is left out.
  The items come one at a time, so each is written before the iteration can raise.
\<close>

definition is_collection_head :: "graph \<Rightarrow> rdf_term \<Rightarrow> bool" where
  "is_collection_head G ob = truthy_opt G (first (objects G (Some ob) (Some RDF_first)))"

definition predicate_collection :: "graph \<Rightarrow> session \<Rightarrow> rdf_term \<Rightarrow> rdf_term \<Rightarrow> int \<Rightarrow> outcome" where
  "predicate_collection G st p ob depth =
     (let st1 = st\<lparr>serialized := insert ob (serialized st)\<rparr>;
          (col, raised) = graph_items G {ob} ob;
          st2 = foldl (list_item G p depth) st1 col
      in if raised then Raised ValueError st2 else Normal st2)"

text \<open>Lines 216 to 219: the object is an IRI typed \<^verbatim>\<open>owl:Class\<close> or \<^verbatim>\<open>rdfs:Class\<close>.\<close>

definition is_class_typed :: "graph \<Rightarrow> rdf_term \<Rightarrow> bool" where
  "is_class_typed G ob =
     (first (triples_choices G ob RDF_type [OWL_Class, RDFS_Class]) \<noteq> None \<and> is_URIRef ob)"

text \<open>Lines 228 to 230: the test that inlines a blank node whatever the depth.\<close>

definition single_use :: "graph \<Rightarrow> session \<Rightarrow> rdf_term \<Rightarrow> bool" where
  "single_use G st ob =
     (ob \<notin> serialized st \<and> in_store G (Some ob, None, None) \<and> length (subjects G None (Some ob)) = 1)"

section \<open>subject and predicate\<close>

text \<open>
  \<^verbatim>\<open>subject\<close> and \<^verbatim>\<open>predicate\<close> call each other. The first argument is fuel:
  the number of blocks that may still be opened one inside the other. A call that needs
  more has the value \<open>None\<close>. \<open>predicate_loop\<close> is the loop of lines 165 to 167.
  \<open>after_inline\<close> is what follows the nested call of \<^verbatim>\<open>subject\<close> in
  \<^verbatim>\<open>predicate\<close>: \<^verbatim>\<open>write(indent)\<close> and the closing tag of line 242.
\<close>

text \<open>Line 214: the opening of the relation element, written before the choice.\<close>

definition rel_begin :: "graph \<Rightarrow> session \<Rightarrow> rdf_term \<Rightarrow> int \<Rightarrow> session" where
  "rel_begin G st p depth =
     (let (q, st1) = getQName G st p True in write_str (rel_open (indent_of depth) q) st1)"

definition after_inline :: "string \<Rightarrow> outcome option \<Rightarrow> outcome option" where
  "after_inline indent r =
     (case r of
        None \<Rightarrow> None
      | Some (Raised e st') \<Rightarrow> Some (Raised e st')
      | Some (Normal st') \<Rightarrow> Some (Normal (write_str ''</div>'' (write_str indent st'))))"

definition after_block :: "string \<Rightarrow> outcome option \<Rightarrow> outcome option" where
  "after_block indent r =
     (case r of
        None \<Rightarrow> None
      | Some (Raised e st') \<Rightarrow> Some (Raised e st')
      | Some (Normal st') \<Rightarrow> Some (Normal (write_str (close_block indent) st')))"

function subject :: "nat \<Rightarrow> graph \<Rightarrow> session \<Rightarrow> rdf_term \<Rightarrow> int \<Rightarrow> outcome option"
  and predicate_loop :: "nat \<Rightarrow> graph \<Rightarrow> session \<Rightarrow> (rdf_term \<times> rdf_term) list \<Rightarrow> int \<Rightarrow> outcome option"
  and predicate :: "nat \<Rightarrow> graph \<Rightarrow> session \<Rightarrow> rdf_term \<Rightarrow> rdf_term \<Rightarrow> int \<Rightarrow> outcome option"
where
  "subject 0 G st s depth = (if s \<in> serialized st then Some (Normal st) else None)"
| "subject (Suc f) G st s depth =
     (if s \<in> serialized st then Some (Normal st)
      else after_block (indent_of depth)
             (predicate_loop f G (subject_open G st s depth) (subject_edges G s) (depth + 1)))"
| "predicate_loop f G st [] depth = Some (Normal st)"
| "predicate_loop f G st ((p, ob) # rest) depth =
     (case predicate f G st p ob depth of
        None \<Rightarrow> None
      | Some (Raised e st') \<Rightarrow> Some (Raised e st')
      | Some (Normal st') \<Rightarrow> predicate_loop f G st' rest depth)"
| "predicate f G st p ob depth =
     (if is_Literal ob then Some (Normal (predicate_literal G st p ob depth))
      else if ob \<in> serialized st \<or> \<not> in_store G (Some ob, None, None)
      then Some (Normal (predicate_reference G st p ob depth))
      else if is_collection_head G ob then Some (predicate_collection G st p ob depth)
      else
        (let indent = indent_of depth;
             st2 = rel_begin G st p depth
         in if is_class_typed G ob
            then Some (Normal (write_str ''</div>''
                   (write_str (resource_attr (relativize st2 (term_str ob))) st2)))
            else if depth \<le> max_depth st2
            then after_inline indent (subject f G (write_str ''>'' st2) ob (depth + 1))
            else if is_BNode ob
            then
              (if single_use G st2 ob
               then after_inline indent (subject f G (write_str ''>'' st2) ob (depth + 1))
               else Some (Normal (write_str ''</div>''
                      (write_str (resource_attr (fix_id (term_str ob))) st2))))
            else Some (Normal (write_str ''</div>''
                   (write_str (resource_attr (relativize st2 (term_str ob))) st2)))))"

  by pat_completeness auto
termination
  by (relation "inv_image (less_than <*lex*> less_than <*lex*> less_than)
        (\<lambda>x. case x of
           Inl (f, G, st, s, depth) \<Rightarrow> (f, 0::nat, 0::nat)
         | Inr (Inl (f, G, st, xs, depth)) \<Rightarrow> (f, 2, length xs)
         | Inr (Inr (f, G, st, p, ob, depth)) \<Rightarrow> (f, 1, 0))") auto

section \<open>The driver\<close>

text \<open>
  The serializer object after \<^verbatim>\<open>__init__(store, max_depth=3)\<close>: the store and two
  empty dictionaries. The argument \<^verbatim>\<open>max_depth\<close> is not kept.
\<close>

record serializer =
  store :: graph
  self_namespaces :: "(string \<times> string) list"
  self_ns_rewrite :: "(string \<times> string) list"

definition init :: "graph \<Rightarrow> int \<Rightarrow> serializer" where
  "init store_arg max_depth_arg =
     \<lparr>store = store_arg, self_namespaces = [], self_ns_rewrite = []\<rparr>"

text \<open>
  Lines 100 and 101: the terms whose namespaces are declared. Python builds a set; the
  list stands for it in some iteration order.
\<close>

definition possible :: "graph \<Rightarrow> rdf_term list" where
  "possible G =
     remdups (predicates G @ objects G None (Some RDF_type)
       @ map (\<lambda>ob. URIRef (pct_s (datatype_of ob)))
           (filter (\<lambda>ob. is_Literal ob \<and> str_truthy (datatype_of ob)) (objects G None None)))"

text \<open>
  Lines 104 to 106: the local dictionary \<^verbatim>\<open>namespaces\<close>. \<^verbatim>\<open>nm.compute_qname\<close>
  is not guarded here: when it raises, so does \<^verbatim>\<open>serialize\<close> (the value \<open>None\<close>).
\<close>

fun header_namespaces ::
  "graph \<Rightarrow> rdf_term list \<Rightarrow> (string \<times> string) list \<Rightarrow> (string \<times> string) list option" where
  "header_namespaces G [] ns = Some ns"
| "header_namespaces G (t # ts) ns =
     (case compute_qname G t True of
        None \<Rightarrow> None
      | Some (prefix, namespace, local) \<Rightarrow> header_namespaces G ts (AList.update prefix namespace ns))"

text \<open>Lines 108 to 111. The dictionary is read in the order its keys were first set.\<close>

definition write_header :: "(string \<times> string) list \<Rightarrow> session \<Rightarrow> session" where
  \<open>write_header ns st =
     write_str ''>''
       (foldl (\<lambda>st' (prefix, namespace).
                 write_str (CHR 0x0A # ''  xmlns:'' @ prefix @ ''="'' @ namespace @ ''"'') st')
          (write_str ''<div xmlns="http://www.w3.org/1999/xhtml"'' st) ns)\<close>

text \<open>Lines 115 to 120: the subjects that no statement points to, or that point to themselves.\<close>

fun pass_top :: "nat \<Rightarrow> graph \<Rightarrow> session \<Rightarrow> rdf_term list \<Rightarrow> outcome option" where
  "pass_top f G st [] = Some (Normal st)"
| "pass_top f G st (s # ss) =
     (case (if in_store G (None, None, Some s)
            then (if in_store G (Some s, None, Some s) then subject f G st s 1 else Some (Normal st))
            else subject f G st s 1) of
        None \<Rightarrow> None
      | Some (Raised e st') \<Rightarrow> Some (Raised e st')
      | Some (Normal st') \<Rightarrow> pass_top f G st' ss)"

text \<open>
  Lines 124 to 129: every subject that is not a blank node. The blank nodes go to the set
  \<^verbatim>\<open>bnodes\<close>, which depends on the store only: \<open>bnodes_of\<close>, in some iteration order.
\<close>

fun pass_rest :: "nat \<Rightarrow> graph \<Rightarrow> session \<Rightarrow> rdf_term list \<Rightarrow> outcome option" where
  "pass_rest f G st [] = Some (Normal st)"
| "pass_rest f G st (s # ss) =
     (if is_BNode s then pass_rest f G st ss
      else
        (case subject f G st s 1 of
           None \<Rightarrow> None
         | Some (Raised e st') \<Rightarrow> Some (Raised e st')
         | Some (Normal st') \<Rightarrow> pass_rest f G st' ss))"

definition bnodes_of :: "graph \<Rightarrow> rdf_term list" where
  "bnodes_of G = remdups (filter is_BNode (subjects G None None))"

text \<open>
  Lines 132 to 134. The call is \<^verbatim>\<open>self.subject(subject, 1)\<close>: its argument is the
  variable of the loop before, which holds the last subject of the store, not
  \<^verbatim>\<open>bnode\<close>. \<open>stale\<close> is that subject.
\<close>

fun pass_bnodes :: "nat \<Rightarrow> graph \<Rightarrow> session \<Rightarrow> rdf_term \<Rightarrow> rdf_term list \<Rightarrow> outcome option" where
  "pass_bnodes f G st stale [] = Some (Normal st)"
| "pass_bnodes f G st stale (bnode # bs) =
     (if bnode \<notin> serialized st then
        (case subject f G st stale 1 of
           None \<Rightarrow> None
         | Some (Raised e st') \<Rightarrow> Some (Raised e st')
         | Some (Normal st') \<Rightarrow> pass_bnodes f G st' stale bs)
      else pass_bnodes f G st stale bs)"

text \<open>One step after another: the next runs on the session the one before returned.\<close>

definition and_then :: "outcome option \<Rightarrow> (session \<Rightarrow> outcome option) \<Rightarrow> outcome option" where
  "and_then r k =
     (case r of
        None \<Rightarrow> None
      | Some (Raised e st) \<Rightarrow> Some (Raised e st)
      | Some (Normal st) \<Rightarrow> k st)"

text \<open>Lines 115 to 134: the three passes.\<close>

definition passes :: "nat \<Rightarrow> graph \<Rightarrow> session \<Rightarrow> outcome option" where
  "passes f G st =
     and_then (pass_top f G st (subjects G None None)) (\<lambda>st1.
     and_then (pass_rest f G st1 (subjects G None None)) (\<lambda>st2.
       (case subjects G None None of
          [] \<Rightarrow> Some (Normal st2)
        | s # ss \<Rightarrow> pass_bnodes f G st2 (last (s # ss)) (bnodes_of G))))"

text \<open>
  \<^verbatim>\<open>serialize(stream, base, encoding, **args)\<close>. \<open>stream\<close> is what the stream holds
  already, \<open>args\<close> the keyword arguments. The encoding of each write is left out, and
  the assertion of line 95 is checked, as Python does unless run with \<^verbatim>\<open>-O\<close>. Line 137
  resets \<^verbatim>\<open>self.__serialized\<close>; the outcome keeps the set as the passes left it.
\<close>

definition start_session :: "serializer \<Rightarrow> string list \<Rightarrow> string option \<Rightarrow> (string \<times> int) list \<Rightarrow> session" where
  "start_session z stream base_arg args =
     \<lparr>serialized = {}, namespaces = self_namespaces z, ns_rewrite = self_ns_rewrite z,
      out = stream, max_depth = dict_get args ''max_depth'' 3, base = base_arg\<rparr>"

definition serialize ::
  "nat \<Rightarrow> serializer \<Rightarrow> string list \<Rightarrow> string option \<Rightarrow> (string \<times> int) list \<Rightarrow> outcome option" where
  "serialize f z stream base_arg args =
     (let st0 = start_session z stream base_arg args
      in if \<not> (max_depth st0 > 0) then Some (Raised AssertionError st0)
         else
           (case header_namespaces (store z) (possible (store z)) [(''rdf'', RDF_ns)] of
              None \<Rightarrow> Some (Raised ComputeQNameError st0)
            | Some ns \<Rightarrow>
                and_then (passes f (store z) (write_header ns st0))
                  (\<lambda>st. Some (Normal (write_str (CHR 0x0A # ''</div>'') st)))))"


section \<open>Example inputs\<close>

text \<open>
  A store for the examples: an IRI of the RDF Schema namespace has the prefix
  \<^verbatim>\<open>rdfs\<close>, every other IRI has the compact name \<^verbatim>\<open>ex:\<close> followed by the IRI, no
  IRI is a namespace of the store, and a literal is true when its lexical form is not
  empty.
\<close>

definition ex_qname :: "rdf_term \<Rightarrow> bool \<Rightarrow> (string \<times> string \<times> string) option" where
  "ex_qname t generate =
     (case t of
        URIRef u \<Rightarrow>
          if take (length RDFS_ns) u = RDFS_ns then Some (''rdfs'', RDFS_ns, drop (length RDFS_ns) u)
          else Some (''ex'', ''http://e/'', u)
      | _ \<Rightarrow> None)"

definition ex_graph :: "triple list \<Rightarrow> graph" where
  "ex_graph ts = \<lparr>triples = ts, compute_qname = ex_qname, store_prefix = (\<lambda>t. None),
                  literal_bool = (\<lambda>t. term_str t \<noteq> [])\<rparr>"

definition ex_session :: "rdf_term set \<Rightarrow> int \<Rightarrow> session" where
  "ex_session visited limit =
     \<lparr>serialized = visited, namespaces = [], ns_rewrite = [], out = [], max_depth = limit, base = None\<rparr>"

text \<open>A blank node that two statements point to, and one that a single statement points to.\<close>

definition shared_graph :: graph where
  "shared_graph = ex_graph
     [(URIRef ''A'', URIRef ''p'', BNode ''b''), (URIRef ''C'', URIRef ''p'', BNode ''b''),
      (BNode ''b'', RDF_type, URIRef ''T''), (BNode ''b'', URIRef ''q'', Literal ''v'' None None)]"

definition single_graph :: graph where
  "single_graph = ex_graph
     [(URIRef ''A'', URIRef ''p'', BNode ''b''),
      (BNode ''b'', RDF_type, URIRef ''T''), (BNode ''b'', URIRef ''q'', Literal ''v'' None None)]"

text \<open>
  An IRI typed \<^verbatim>\<open>owl:Class\<close> with a statement of its own, and one that is also the
  head of a collection.
\<close>

definition class_graph :: graph where
  "class_graph = ex_graph [(URIRef ''A'', URIRef ''p'', URIRef ''K''), (URIRef ''K'', RDF_type, OWL_Class),
     (URIRef ''K'', URIRef ''q'', URIRef ''B'')]"

definition class_list_graph :: graph where
  "class_list_graph = ex_graph [(URIRef ''A'', URIRef ''p'', URIRef ''K''), (URIRef ''K'', RDF_type, OWL_Class),
     (URIRef ''K'', RDF_first, Literal ''a'' None None), (URIRef ''K'', RDF_rest, RDF_nil)]"

text \<open>A collection of three items, a literal, an IRI and a blank node, and the statement that points to its head.\<close>

definition list_graph :: graph where
  "list_graph = ex_graph
     [(URIRef ''A'', URIRef ''items'', BNode ''l''),
      (BNode ''l'', RDF_first, Literal ''1'' None None), (BNode ''l'', RDF_rest, BNode ''l2''),
      (BNode ''l2'', RDF_first, URIRef ''X''), (BNode ''l2'', RDF_rest, BNode ''l3''),
      (BNode ''l3'', RDF_first, BNode ''y''), (BNode ''l3'', RDF_rest, RDF_nil)]"


text \<open>Two blank nodes that point to each other, and an IRI with a literal; the IRI is the last subject.\<close>

definition cycle_graph :: graph where
  "cycle_graph = ex_graph
     [(BNode ''b1'', URIRef ''p'', BNode ''b2''), (BNode ''b2'', URIRef ''q'', BNode ''b1''),
      (URIRef ''A'', URIRef ''r'', Literal ''x'' None None)]"

section \<open>Notions for the statements\<close>

text \<open>
  \<open>extends st st'\<close>: the session \<open>st'\<close> comes after \<open>st\<close> in one call of
  \<^verbatim>\<open>serialize\<close>. The stream has only grown at its end, no term has left the visited
  set, and the depth limit, the base and \<^verbatim>\<open>self.namespaces\<close> are the same.
\<close>

definition extends :: "session \<Rightarrow> session \<Rightarrow> bool" where
  "extends st st' =
     ((\<exists>ys. out st' = out st @ ys) \<and> serialized st \<subseteq> serialized st'
      \<and> max_depth st' = max_depth st \<and> base st' = base st \<and> namespaces st' = namespaces st)"

text \<open>
  The subjects of the store not yet visited. Each block opened takes one away, so a
  call returns when its fuel is at least their number.
\<close>

definition unvisited :: "graph \<Rightarrow> session \<Rightarrow> rdf_term set" where
  "unvisited G st = set (subjects G None None) - serialized st"


text \<open>
  A well-formed chain: \<open>chain G cells items\<close> holds when \<open>cells\<close> are the cells of a
  list and its end, each cell but the end is true in a condition and has the next item
  as its \<^verbatim>\<open>rdf:first\<close> value and the next cell as its \<^verbatim>\<open>rdf:rest\<close> value, and
  the end is \<^verbatim>\<open>rdf:nil\<close> and has neither. The cells of a well-formed chain are distinct.
\<close>

fun chain :: "graph \<Rightarrow> rdf_term list \<Rightarrow> rdf_term list \<Rightarrow> bool" where
  "chain G [e] [] =
     (e = RDF_nil \<and> graph_value G e RDF_first = None \<and> graph_value G e RDF_rest = None)"
| "chain G (c # c' # cs) (x # xs) =
     (truthy G c \<and> graph_value G c RDF_first = Some x \<and> graph_value G c RDF_rest = Some c'
      \<and> chain G (c' # cs) xs)"
| "chain G cs xs = False"

section \<open>What every call preserves\<close>

lemma write_str_simps [simp]:
  "serialized (write_str u st) = serialized st"
  "out (write_str u st) = out st @ [u]"
  "max_depth (write_str u st) = max_depth st"
  "base (write_str u st) = base st"
  "namespaces (write_str u st) = namespaces st"
  "ns_rewrite (write_str u st) = ns_rewrite st"
  by (simp_all add: write_str_def)

lemma addNamespace_frame [simp]:
  "serialized (snd (addNamespace st p n)) = serialized st"
  "out (snd (addNamespace st p n)) = out st"
  "max_depth (snd (addNamespace st p n)) = max_depth st"
  "base (snd (addNamespace st p n)) = base st"
  "namespaces (snd (addNamespace st p n)) = namespaces st"
  by (simp_all add: addNamespace_def Let_def)

lemma getQName_frame [simp]:
  "serialized (snd (getQName G st u g)) = serialized st"
  "out (snd (getQName G st u g)) = out st"
  "max_depth (snd (getQName G st u g)) = max_depth st"
  "base (snd (getQName G st u g)) = base st"
  "namespaces (snd (getQName G st u g)) = namespaces st"
  by (simp_all add: getQName_def Let_def split_beta split: option.splits)

lemma extends_refl [simp]: "extends st st"
  by (simp add: extends_def)

lemma extends_trans: "extends a b \<Longrightarrow> extends b c \<Longrightarrow> extends a c"
  by (auto simp: extends_def)

lemma extends_write: "extends st st' \<Longrightarrow> extends st (write_str u st')"
  by (auto simp: extends_def)

lemma extends_getQName: "extends st st' \<Longrightarrow> extends st (snd (getQName G st' u g))"
  by (auto simp: extends_def)

lemma extends_mark: "extends st st' \<Longrightarrow> extends st (st'\<lparr>serialized := insert x (serialized st')\<rparr>)"
  by (auto simp: extends_def)

lemmas extends_intros = extends_write extends_getQName extends_mark

lemma extends_subject_open: "extends st (subject_open G st s depth)"
  by (simp add: subject_open_def Let_def split_beta extends_intros)

lemma extends_predicate_literal: "extends st (predicate_literal G st p ob depth)"
  by (simp add: predicate_literal_def Let_def split_beta extends_intros)

lemma extends_predicate_reference: "extends st (predicate_reference G st p ob depth)"
  by (simp add: predicate_reference_def Let_def split_beta extends_intros)

lemma extends_rel_begin: "extends st (rel_begin G st p depth)"
  by (simp add: rel_begin_def Let_def split_beta extends_intros)

lemma extends_list_item: "extends st st' \<Longrightarrow> extends st (list_item G p depth st' item)"
  by (auto simp: list_item_def Let_def split_beta extends_def)

lemma extends_foldl_list_item: "extends st st' \<Longrightarrow> extends st (foldl (list_item G p depth) st' col)"
  by (induction col arbitrary: st') (simp_all add: extends_list_item)

lemma extends_predicate_collection: "extends st (session_of (predicate_collection G st p ob depth))"
  by (simp add: predicate_collection_def Let_def split_beta extends_foldl_list_item extends_intros)


lemma after_block_SomeD:
  "after_block i x = Some r \<Longrightarrow> \<exists>r0. x = Some r0 \<and> extends (session_of r0) (session_of r)"
  by (auto simp: after_block_def extends_write split: option.splits outcome.splits)

lemma after_inline_SomeD:
  "after_inline i x = Some r \<Longrightarrow> \<exists>r0. x = Some r0 \<and> extends (session_of r0) (session_of r)"
  by (auto simp: after_inline_def extends_write split: option.splits outcome.splits)

declare predicate.simps [simp del]

lemma extends_traverse:
  "subject f G st s depth = Some r \<Longrightarrow> extends st (session_of r)"
  "predicate_loop f G st xs depth = Some r \<Longrightarrow> extends st (session_of r)"
  "predicate f G st p ob depth = Some r \<Longrightarrow> extends st (session_of r)"
proof (induction f G st s depth and f G st xs depth and f G st p ob depth
       arbitrary: r and r and r rule: subject_predicate_loop_predicate.induct)
  case (1 G st s depth)
  then show ?case by (auto split: if_splits)
next
  case (2 f G st s depth)
  show ?case
  proof (cases "s \<in> serialized st")
    case True
    with "2.prems" show ?thesis by auto
  next
    case False
    with "2.prems" obtain r0 where
      r0: "predicate_loop f G (subject_open G st s depth) (subject_edges G s) (depth + 1) = Some r0"
      and e: "extends (session_of r0) (session_of r)"
      by (auto dest: after_block_SomeD)
    from "2.IH" [OF False r0] have "extends (subject_open G st s depth) (session_of r0)" .
    with e extends_subject_open [of st G s depth] show ?thesis
      by (blast intro: extends_trans)
  qed
next
  case (3 f G st depth)
  then show ?case by auto
next
  case (4 f G st p ob rest depth)
  from "4.prems" obtain r1 where r1: "predicate f G st p ob depth = Some r1"
    by (auto split: option.splits)
  have e1: "extends st (session_of r1)" by (rule "4.IH"(1) [OF r1])
  show ?case
  proof (cases r1)
    case (Normal st1)
    with r1 "4.prems" have "predicate_loop f G st1 rest depth = Some r" by simp
    from "4.IH"(2) [OF r1 Normal this] e1 Normal show ?thesis
      by (auto intro: extends_trans)
  next
    case (Raised e st1)
    with r1 "4.prems" have "r = r1" by simp
    with e1 show ?thesis by simp
  qed
next
  case (5 f G st p ob depth)
  let ?st2 = "rel_begin G st p depth"
  have e2: "extends st ?st2" by (rule extends_rel_begin)
  have inl: "extends st (session_of r)"
    if a: "after_inline (indent_of depth) (subject f G (write_str ''>'' ?st2) ob (depth + 1)) = Some r"
    and ih: "\<And>r0. subject f G (write_str ''>'' ?st2) ob (depth + 1) = Some r0
              \<Longrightarrow> extends (write_str ''>'' ?st2) (session_of r0)"
  proof -
    from a obtain r0 where r0: "subject f G (write_str ''>'' ?st2) ob (depth + 1) = Some r0"
      and e: "extends (session_of r0) (session_of r)"
      by (auto dest: after_inline_SomeD)
    from ih [OF r0] have "extends (write_str ''>'' ?st2) (session_of r0)" .
    moreover have "extends st (write_str ''>'' ?st2)" using e2 by (rule extends_write)
    ultimately show ?thesis using e by (blast intro: extends_trans)
  qed
  from "5.prems" show ?case
    apply (simp add: predicate.simps Let_def split: if_splits)
           apply (auto simp: extends_predicate_literal extends_predicate_reference
                             extends_predicate_collection intro!: extends_write e2)[5]
      apply (rule inl, assumption, rule "5.IH"(1); simp)
     apply (rule inl, assumption, rule "5.IH"(2); simp)
    apply (auto intro!: extends_write e2)
    done
qed


section \<open>Every call returns\<close>

lemma finite_unvisited [simp]: "finite (unvisited G st)"
  by (simp add: unvisited_def)

lemma extends_unvisited: "extends st st' \<Longrightarrow> card (unvisited G st') \<le> card (unvisited G st)"
  by (rule card_mono) (auto simp: unvisited_def extends_def)

lemma in_store_subject: "in_store G (Some s, None, None) \<Longrightarrow> s \<in> set (subjects G None None)"
proof -
  assume "in_store G (Some s, None, None)"
  then obtain t where t: "t \<in> set (triples G)" "matches (Some s, None, None) t"
    by (auto simp: in_store_def triples_of_def filter_empty_conv)
  from t(2) have "fst t = s" by (cases t) simp
  with t(1) show ?thesis by (force simp: subjects_def)
qed

lemma rel_begin_serialized [simp]: "serialized (rel_begin G st p depth) = serialized st"
  by (simp add: rel_begin_def Let_def split_beta)

lemma subject_open_serialized [simp]:
  "serialized (subject_open G st s depth) = insert s (serialized st)"
  by (simp add: subject_open_def Let_def split_beta)

lemma unvisited_write [simp]: "unvisited G (write_str u st) = unvisited G st"
  by (simp add: unvisited_def)

lemma after_block_Some: "x = Some r0 \<Longrightarrow> \<exists>r. after_block i x = Some r"
  by (cases r0) (simp_all add: after_block_def)

lemma after_inline_Some: "x = Some r0 \<Longrightarrow> \<exists>r. after_inline i x = Some r"
  by (cases r0) (simp_all add: after_inline_def)

lemma traverse_returns:
  "s \<in> serialized st \<or> card (unvisited G st - {s}) < f \<Longrightarrow> \<exists>r. subject f G st s depth = Some r"
  "card (unvisited G st) \<le> f \<Longrightarrow> \<exists>r. predicate_loop f G st xs depth = Some r"
  "card (unvisited G st) \<le> f \<Longrightarrow> \<exists>r. predicate f G st p ob depth = Some r"
proof (induction f G st s depth and f G st xs depth and f G st p ob depth
       rule: subject_predicate_loop_predicate.induct)
  case (1 G st s depth)
  then show ?case by auto
next
  case (2 f G st s depth)
  show ?case
  proof (cases "s \<in> serialized st")
    case True
    then show ?thesis by simp
  next
    case False
    have "unvisited G (subject_open G st s depth) = unvisited G st - {s}"
      by (auto simp: unvisited_def)
    with "2.prems" False have "card (unvisited G (subject_open G st s depth)) \<le> f"
      by simp
    from "2.IH" [OF False this] obtain r0 where
      "predicate_loop f G (subject_open G st s depth) (subject_edges G s) (depth + 1) = Some r0" ..
    from after_block_Some [OF this] False show ?thesis by simp
  qed
next
  case (3 f G st depth)
  then show ?case by simp
next
  case (4 f G st p ob rest depth)
  from "4.IH"(1) [OF "4.prems"] obtain r1 where r1: "predicate f G st p ob depth = Some r1" ..
  show ?case
  proof (cases r1)
    case (Normal st1)
    from extends_traverse(3) [OF r1] Normal have "extends st st1" by simp
    from extends_unvisited [OF this] "4.prems" have "card (unvisited G st1) \<le> f"
      by (rule le_trans)
    from "4.IH"(2) [OF r1 Normal this] r1 Normal show ?thesis by simp
  next
    case (Raised e st1)
    with r1 show ?thesis by simp
  qed
next
  case (5 f G st p ob depth)
  let ?st2 = "rel_begin G st p depth"
  have inl: "\<exists>r. after_inline (indent_of depth) (subject f G (write_str ''>'' ?st2) ob (depth + 1)) = Some r"
    if u: "ob \<notin> serialized st" and i: "in_store G (Some ob, None, None)"
    and ih: "ob \<in> serialized (write_str ''>'' ?st2) \<or> card (unvisited G (write_str ''>'' ?st2) - {ob}) < f
             \<Longrightarrow> \<exists>r. subject f G (write_str ''>'' ?st2) ob (depth + 1) = Some r"
  proof -
    have eq: "unvisited G (write_str ''>'' ?st2) = unvisited G st"
      by (simp add: unvisited_def)
    from u i have "ob \<in> unvisited G st"
      by (simp add: unvisited_def in_store_subject)
    then have "card (unvisited G st - {ob}) < card (unvisited G st)"
      by (intro card_Diff1_less) simp_all
    with "5.prems" eq have "card (unvisited G (write_str ''>'' ?st2) - {ob}) < f"
      by simp
    then obtain r0 where "subject f G (write_str ''>'' ?st2) ob (depth + 1) = Some r0"
      using ih by blast
    from after_inline_Some [OF this] show ?thesis .
  qed
  show ?case
  proof (cases "is_Literal ob \<or> ob \<in> serialized st \<or> \<not> in_store G (Some ob, None, None)
                \<or> is_collection_head G ob \<or> is_class_typed G ob")
    case True
    then show ?thesis by (auto simp: predicate.simps Let_def)
  next
    case False
    then have nl: "\<not> is_Literal ob" and nv: "\<not> (ob \<in> serialized st \<or> \<not> in_store G (Some ob, None, None))"
      and nc: "\<not> is_collection_head G ob" and nt: "\<not> is_class_typed G ob"
      by auto
    show ?thesis
    proof (cases "depth \<le> max_depth ?st2")
      case True
      have "\<exists>r. after_inline (indent_of depth) (subject f G (write_str ''>'' ?st2) ob (depth + 1)) = Some r"
        using nv by (intro inl "5.IH"(1) [OF nl nv nc refl refl nt True]) auto
      with nl nv nc nt True show ?thesis by (simp add: predicate.simps Let_def)
    next
      case deep: False
      show ?thesis
      proof (cases "is_BNode ob \<and> single_use G ?st2 ob")
        case True
        then have b: "is_BNode ob" and su: "single_use G ?st2 ob" by auto
        have "\<exists>r. after_inline (indent_of depth) (subject f G (write_str ''>'' ?st2) ob (depth + 1)) = Some r"
          using nv by (intro inl "5.IH"(2) [OF nl nv nc refl refl nt deep b su]) auto
        with nl nv nc nt deep True show ?thesis by (simp add: predicate.simps Let_def)
      next
        case False
        with nl nv nc nt deep show ?thesis by (auto simp: predicate.simps Let_def)
      qed
    qed
  qed
qed

text \<open>
  The driver returns as well: the subjects of the store are no more than its statements,
  and every call of \<^verbatim>\<open>subject\<close> it makes is on a subject of the store.
\<close>

lemma subject_of_store_returns:
  assumes "s \<in> set (subjects G None None)" and "card (unvisited G st) \<le> f"
  shows "\<exists>r. subject f G st s depth = Some r"
proof (cases "s \<in> serialized st")
  case True
  then show ?thesis by (cases f) simp_all
next
  case False
  with assms(1) have "s \<in> unvisited G st" by (simp add: unvisited_def)
  then have "card (unvisited G st - {s}) < card (unvisited G st)"
    by (intro card_Diff1_less) simp_all
  with assms(2) have "card (unvisited G st - {s}) < f" by simp
  then show ?thesis by (intro traverse_returns(1)) simp
qed

lemma pass_top_returns:
  "set ss \<subseteq> set (subjects G None None) \<Longrightarrow> card (unvisited G st) \<le> f \<Longrightarrow>
     \<exists>r. pass_top f G st ss = Some r \<and> extends st (session_of r)"
proof (induction ss arbitrary: st)
  case Nil
  then show ?case by simp
next
  case (Cons s ss)
  let ?c = "if in_store G (None, None, Some s)
            then (if in_store G (Some s, None, Some s) then subject f G st s 1 else Some (Normal st))
            else subject f G st s 1"
  from Cons.prems have "\<exists>r. subject f G st s 1 = Some r"
    by (intro subject_of_store_returns) simp_all
  then have "\<exists>r1. ?c = Some r1" by simp
  then obtain r1 where r1: "?c = Some r1" ..
  then have e1: "extends st (session_of r1)"
    by (auto split: if_splits dest: extends_traverse(1))
  show ?case
  proof (cases r1)
    case (Normal st1)
    with e1 Cons.prems(2) have "card (unvisited G st1) \<le> f"
      using extends_unvisited [of st st1 G] by simp
    with Cons.prems(1) obtain r where "pass_top f G st1 ss = Some r" "extends st1 (session_of r)"
      using Cons.IH [of st1] by auto
    with r1 Normal e1 show ?thesis
      by (auto intro: extends_trans)
  next
    case (Raised e st1)
    with r1 e1 show ?thesis by simp
  qed
qed

lemma pass_rest_returns:
  "set ss \<subseteq> set (subjects G None None) \<Longrightarrow> card (unvisited G st) \<le> f \<Longrightarrow>
     \<exists>r. pass_rest f G st ss = Some r \<and> extends st (session_of r)"
proof (induction ss arbitrary: st)
  case Nil
  then show ?case by simp
next
  case (Cons s ss)
  show ?case
  proof (cases "is_BNode s")
    case True
    with Cons show ?thesis by simp
  next
    case False
    from Cons.prems obtain r1 where r1: "subject f G st s 1 = Some r1"
      using subject_of_store_returns [of s G st f 1] by auto
    then have e1: "extends st (session_of r1)" by (rule extends_traverse(1))
    show ?thesis
    proof (cases r1)
      case (Normal st1)
      with e1 Cons.prems(2) have "card (unvisited G st1) \<le> f"
        using extends_unvisited [of st st1 G] by simp
      with Cons.prems(1) obtain r where "pass_rest f G st1 ss = Some r" "extends st1 (session_of r)"
        using Cons.IH [of st1] by auto
      with r1 Normal e1 False show ?thesis
        by (auto intro: extends_trans)
    next
      case (Raised e st1)
      with r1 e1 False show ?thesis by simp
    qed
  qed
qed

lemma pass_bnodes_returns:
  "stale \<in> set (subjects G None None) \<Longrightarrow> card (unvisited G st) \<le> f \<Longrightarrow>
     \<exists>r. pass_bnodes f G st stale bs = Some r \<and> extends st (session_of r)"
proof (induction bs arbitrary: st)
  case Nil
  then show ?case by simp
next
  case (Cons b bs)
  show ?case
  proof (cases "b \<in> serialized st")
    case True
    with Cons show ?thesis by simp
  next
    case False
    from Cons.prems obtain r1 where r1: "subject f G st stale 1 = Some r1"
      using subject_of_store_returns [of stale G st f 1] by auto
    then have e1: "extends st (session_of r1)" by (rule extends_traverse(1))
    show ?thesis
    proof (cases r1)
      case (Normal st1)
      with e1 Cons.prems(2) have "card (unvisited G st1) \<le> f"
        using extends_unvisited [of st st1 G] by simp
      with Cons.prems(1) obtain r where "pass_bnodes f G st1 stale bs = Some r" "extends st1 (session_of r)"
        using Cons.IH [of st1] by auto
      with r1 Normal e1 False show ?thesis
        by (auto intro: extends_trans)
    next
      case (Raised e st1)
      with r1 e1 False show ?thesis by simp
    qed
  qed
qed

lemma passes_returns:
  assumes "card (unvisited G st) \<le> f"
  shows "\<exists>r. passes f G st = Some r"
proof -
  from pass_top_returns [OF subset_refl assms] obtain r1 where
    r1: "pass_top f G st (subjects G None None) = Some r1" and e1: "extends st (session_of r1)"
    by blast
  show ?thesis
  proof (cases r1)
    case (Raised e st1)
    with r1 show ?thesis by (simp add: passes_def and_then_def)
  next
    case (Normal st1)
    with e1 assms have c1: "card (unvisited G st1) \<le> f"
      using extends_unvisited [of st st1 G] by simp
    from pass_rest_returns [OF subset_refl c1] obtain r2 where
      r2: "pass_rest f G st1 (subjects G None None) = Some r2" and e2: "extends st1 (session_of r2)"
      by blast
    show ?thesis
    proof (cases r2)
      case (Raised e st2)
      with r1 Normal r2 show ?thesis by (simp add: passes_def and_then_def)
    next
      case n2: (Normal st2)
      with e2 c1 have c2: "card (unvisited G st2) \<le> f"
        using extends_unvisited [of st1 st2 G] by simp
      show ?thesis
      proof (cases "subjects G None None")
        case Nil
        with r1 Normal r2 n2 show ?thesis by (simp add: passes_def and_then_def)
      next
        case (Cons s ss)
        then have "last (s # ss) \<in> set (subjects G None None)"
          by (metis last_in_set list.distinct(1))
        from pass_bnodes_returns [OF this c2, of "bnodes_of G"] obtain r3 where
          "pass_bnodes f G st2 (last (s # ss)) (bnodes_of G) = Some r3" by blast
        with r1 Normal r2 n2 Cons show ?thesis by (simp add: passes_def and_then_def)
      qed
    qed
  qed
qed

lemma unvisited_write_header [simp]: "unvisited G (write_header ns st) = unvisited G st"
proof -
  have "serialized (foldl (\<lambda>st' (prefix, namespace). write_str (h prefix namespace) st') s ns) = serialized s"
    for h :: "string \<Rightarrow> string \<Rightarrow> string" and s
    by (induction ns arbitrary: s) (simp_all add: split_beta)
  then show ?thesis
    by (simp add: unvisited_def write_header_def)
qed

lemma serialize_returns:
  assumes "length (triples (store z)) \<le> f"
  shows "\<exists>r. serialize f z stream base_arg args = Some r"
proof -
  have "card (set (subjects (store z) None None)) \<le> length (subjects (store z) None None)"
    by (rule card_length)
  also have "\<dots> = length (triples (store z))" by (simp add: subjects_def)
  finally have c: "card (set (subjects (store z) None None)) \<le> f" using assms by simp
  have "card (unvisited (store z) st) \<le> f" for st
  proof -
    have "card (unvisited (store z) st) \<le> card (set (subjects (store z) None None))"
      by (rule card_mono) (auto simp: unvisited_def)
    with c show ?thesis by simp
  qed
  then have "\<exists>r. passes f (store z) st = Some r" for st
    by (rule passes_returns)
  then show ?thesis
    by (auto simp: serialize_def Let_def and_then_def split: option.splits outcome.splits)
       (metis option.distinct(1))
qed

section \<open>Prefix rewrites\<close>






section \<open>The block of an unvisited subject\<close>

lemma addNamespace_fst_serialized [simp]:
  "fst (addNamespace (st\<lparr>serialized := X\<rparr>) p n) = fst (addNamespace st p n)"
  by (simp add: addNamespace_def Let_def)

lemma getQName_fst_serialized [simp]:
  "fst (getQName G (st\<lparr>serialized := X\<rparr>) u g) = fst (getQName G st u g)"
  by (simp add: getQName_def Let_def split_beta split: option.splits)

lemma subject_open_out_BNode:
  "out (subject_open G st (BNode b) depth)
     = out st @ [indent_of depth @ ''<div typeof=\"''
                 @ pct_s (fst (getQName G st (element_of G (subject_type G (BNode b))) True))
                 @ (if 1 < length (triples_of G (None, None, Some (BNode b)))
                    then ''\" about=\"'' @ fix_id b @ ''\">'' else ''\">'')]"
  by (simp add: subject_open_def Let_def split_beta open_about_def open_plain_def more_than_def)

lemma after_block_out:
  "after_block i x = Some r \<Longrightarrow>
     \<exists>r0. x = Some r0 \<and> serialized (session_of r) = serialized (session_of r0)
       \<and> (case r of
             Normal st' \<Rightarrow> out st' = out (session_of r0) @ [close_block i]
           | Raised e st' \<Rightarrow> out st' = out (session_of r0))"
  by (auto simp: after_block_def split: option.splits outcome.splits)

text \<open>
  A call of \<^verbatim>\<open>subject\<close> on an unvisited subject, with fuel enough: it has an outcome,
  the stream then starts with the opening tag, the subject is visited, and when the call
  returns the closing tag is last.
\<close>

lemma subject_unvisited:
  assumes "s \<notin> serialized st" and "card (unvisited G st - {s}) < f"
  shows "\<exists>r ys. subject f G st s depth = Some r
           \<and> out (session_of r) = out (subject_open G st s depth) @ ys
           \<and> s \<in> serialized (session_of r)
           \<and> (case r of
                 Normal st' \<Rightarrow> \<exists>zs. ys = zs @ [close_block (indent_of depth)]
               | Raised e st' \<Rightarrow> True)"
proof -
  from assms(2) obtain f' where f: "f = Suc f'" by (cases f) auto
  from traverse_returns(1) [of s st G f depth] assms(2)
  obtain r where r: "subject f G st s depth = Some r" by blast
  with assms(1) f obtain r0 where
    r0: "predicate_loop f' G (subject_open G st s depth) (subject_edges G s) (depth + 1) = Some r0"
    and v: "serialized (session_of r) = serialized (session_of r0)"
    and o: "case r of
              Normal st' \<Rightarrow> out st' = out (session_of r0) @ [close_block (indent_of depth)]
            | Raised e st' \<Rightarrow> out st' = out (session_of r0)"
    by (auto dest: after_block_out)
  from extends_traverse(2) [OF r0] obtain ys where
    ys: "out (session_of r0) = out (subject_open G st s depth) @ ys"
    and sub: "serialized (subject_open G st s depth) \<subseteq> serialized (session_of r0)"
    by (auto simp: extends_def)
  from sub v have vis: "s \<in> serialized (session_of r)" by auto
  show ?thesis
  proof (cases r)
    case (Normal st')
    with o ys have "out (session_of r) = out (subject_open G st s depth) @ (ys @ [close_block (indent_of depth)])"
      by simp
    with r vis Normal show ?thesis by (intro exI conjI) (assumption, assumption, assumption, simp)
  next
    case (Raised e st')
    with o ys have "out (session_of r) = out (subject_open G st s depth) @ ys"
      by simp
    with r vis Raised show ?thesis by (intro exI conjI) (assumption, assumption, assumption, simp)
  qed
qed

lemmas ex_eval =
  ex_graph_def ex_session_def ex_qname_def unvisited_def subjects_def objects_def triples_of_def
  indent_of_def indent_string_def subject_type_def element_of_def getQName_def addNamespace_def
  starts_with_underscore_def dict_get_def pct_s_def fix_id_def
  RDF_type_def RDF_first_def RDF_rest_def RDF_ns_def RDFS_Resource_def RDFS_ns_def

section \<open>The relation element\<close>

lemma relativize_write [simp]: "relativize (write_str u st) x = relativize st x"
  by (simp add: relativize_def)

lemma relativize_getQName [simp]: "relativize (snd (getQName G st u g)) x = relativize st x"
  by (simp add: relativize_def)

lemma relativize_rel_begin [simp]: "relativize (rel_begin G st p depth) x = relativize st x"
  by (simp add: rel_begin_def split_beta)

lemma rel_begin_out [simp]:
  "out (rel_begin G st p depth) = out st @ [rel_open (indent_of depth) (fst (getQName G st p True))]"
  by (simp add: rel_begin_def split_beta)

lemma predicate_reference_URIRef:
  "is_URIRef ob \<Longrightarrow>
     predicate_reference G st p ob depth
       = write_str ''</div>'' (write_str (resource_attr (relativize st (term_str ob))) (rel_begin G st p depth))"
  by (cases ob) (simp_all add: predicate_reference_def rel_begin_def Let_def split_beta)

lemma is_class_typed_iff:
  "is_class_typed G ob \<longleftrightarrow>
     is_URIRef ob \<and> ((ob, RDF_type, OWL_Class) \<in> set (triples G) \<or> (ob, RDF_type, RDFS_Class) \<in> set (triples G))"
proof -
  have "first xs \<noteq> None \<longleftrightarrow> xs \<noteq> []" for xs :: "triple list"
    by (cases xs) simp_all
  moreover have "triples_of G (Some a, Some b, Some c) \<noteq> [] \<longleftrightarrow> (a, b, c) \<in> set (triples G)" for a b c
    by (force simp: triples_of_def filter_empty_conv)
  ultimately show ?thesis
    by (auto simp: is_class_typed_def triples_choices_def)
qed

lemma addNamespace_fst_write [simp]:
  "fst (addNamespace (write_str u st) p n) = fst (addNamespace st p n)"
  by (simp add: addNamespace_def Let_def)

lemma getQName_fst_write [simp]:
  "fst (getQName G (write_str u st) x g) = fst (getQName G st x g)"
  by (simp add: getQName_def Let_def split_beta split: option.splits)

lemma after_inline_Normal:
  "x = Some (Normal s0) \<Longrightarrow> after_inline i x = Some (Normal (write_str ''</div>'' (write_str i s0)))"
  by (simp add: after_inline_def)

lemma after_inline_Raised:
  "x = Some (Raised e s0) \<Longrightarrow> after_inline i x = Some (Raised e s0)"
  by (simp add: after_inline_def)

lemma subjects_length:
  "length (subjects G None (Some ob)) = length (triples_of G (None, None, Some ob))"
  by (simp add: subjects_def)

lemmas ex_eval2 = ex_eval is_collection_head_def OWL_Class_def OWL_NS_def RDFS_Class_def RDF_nil_def
  rel_open_def resource_attr_def relativize_def in_store_def eval_nat_numeral

section \<open>Collections in chain order\<close>





lemma list_item_element_getQName [simp]:
  "list_item_element i q (snd (getQName G st u g)) x = list_item_element i q st x"
  by (simp add: list_item_element_def)

lemma list_item_element_serialized [simp]:
  "list_item_element i q (st\<lparr>serialized := X\<rparr>) x = list_item_element i q st x"
  by (simp add: list_item_element_def relativize_def)






section \<open>Compact names along a traversal\<close>

lemma addNamespace_snd_serialized [simp]:
  "snd (addNamespace (st\<lparr>serialized := X\<rparr>) p n) = (snd (addNamespace st p n))\<lparr>serialized := X\<rparr>"
  by (simp add: addNamespace_def Let_def)

lemma getQName_snd_serialized [simp]:
  "snd (getQName G (st\<lparr>serialized := X\<rparr>) u g) = (snd (getQName G st u g))\<lparr>serialized := X\<rparr>"
  by (simp add: getQName_def Let_def split_beta split: option.splits)

lemma addNamespace_snd_write [simp]:
  "snd (addNamespace (write_str w st) p n) = write_str w (snd (addNamespace st p n))"
  by (simp add: addNamespace_def Let_def write_str_def)

lemma getQName_snd_write [simp]:
  "snd (getQName G (write_str w st) u g) = write_str w (snd (getQName G st u g))"
  by (simp add: getQName_def Let_def split_beta split: option.splits)

lemma relativize_serialized [simp]: "relativize (st\<lparr>serialized := X\<rparr>) x = relativize st x"
  by (simp add: relativize_def)

lemma write_str_serialized:
  "write_str w (st\<lparr>serialized := X\<rparr>) = (write_str w st)\<lparr>serialized := X\<rparr>"
  by (simp add: write_str_def)

section \<open>The claims\<close>

text \<open>
  C10. The constructor's \<^verbatim>\<open>max_depth\<close> is not stored: two serializers built on one
  store with different values are the same object and serialize alike. The limit of a
  call is the keyword argument \<^verbatim>\<open>max_depth\<close> of \<^verbatim>\<open>serialize\<close>, 3 when absent.
\<close>

theorem init_ignores_max_depth:
  "init G m1 = init G m2
   \<and> serialize f (init G m1) stream b args = serialize f (init G m2) stream b args
   \<and> max_depth (start_session (init G m1) stream b args) = dict_get args ''max_depth'' 3
   \<and> max_depth (start_session (init G m1) stream b []) = 3"
  by (simp add: init_def start_session_def dict_get_def)



text \<open>
  C4. When the keyword argument \<^verbatim>\<open>max_depth\<close> (3 when absent) is not positive,
  \<^verbatim>\<open>serialize\<close> raises at the assertion of line 95: the stream is as it was and
  no subject has been visited.
\<close>

theorem serialize_rejects_nonpositive_max_depth:
  assumes "dict_get args ''max_depth'' 3 \<le> 0"
  shows "serialize f z stream b args = Some (Raised AssertionError (start_session z stream b args))
         \<and> out (start_session z stream b args) = stream
         \<and> serialized (start_session z stream b args) = {}"
  using assms by (simp add: serialize_def start_session_def Let_def)

theorem serialize_rejects_nonpositive_max_depth_witness:
  "dict_get [(''max_depth'', 0::int)] ''max_depth'' 3 \<le> 0
   \<and> serialize 5 (init (ex_graph [(URIRef ''A'', URIRef ''p'', URIRef ''B'')]) 3) [] None [(''max_depth'', 0)]
       = Some (Raised AssertionError
           (start_session (init (ex_graph [(URIRef ''A'', URIRef ''p'', URIRef ''B'')]) 3) [] None [(''max_depth'', 0)]))
   \<and> out (start_session (init (ex_graph [(URIRef ''A'', URIRef ''p'', URIRef ''B'')]) 3) [] None [(''max_depth'', 0)]) = []"
proof -
  have h: "dict_get [(''max_depth'', 0::int)] ''max_depth'' 3 \<le> 0"
    by (simp add: dict_get_def)
  from serialize_rejects_nonpositive_max_depth [OF h] h show ?thesis by simp
qed






text \<open>
  C8. A call of \<^verbatim>\<open>subject\<close> on a blank node not yet visited, with fuel enough, has
  an outcome, and what it writes starts with the opening tag: with the attribute
  \<^verbatim>\<open>about\<close> (the identifier, fixed up) when more than one statement has the node as
  object, with \<^verbatim>\<open>typeof\<close> alone when at most one has.
\<close>

theorem blank_node_about_iff_shared:
  assumes "BNode b \<notin> serialized st" and "card (unvisited G st - {BNode b}) < f"
  shows "\<exists>r ys. subject f G st (BNode b) depth = Some r
           \<and> out (session_of r)
               = out st @ (indent_of depth @ ''<div typeof=\"''
                   @ pct_s (fst (getQName G st (element_of G (subject_type G (BNode b))) True))
                   @ (if 1 < length (triples_of G (None, None, Some (BNode b)))
                      then ''\" about=\"'' @ fix_id b @ ''\">'' else ''\">'')) # ys"
proof -
  from subject_unvisited [OF assms, of depth] obtain r ys where
    "subject f G st (BNode b) depth = Some r"
    "out (session_of r) = out (subject_open G st (BNode b) depth) @ ys"
    by blast
  then show ?thesis
    by (simp only: subject_open_out_BNode append_assoc append_Cons append_Nil) blast
qed

theorem blank_node_about_iff_shared_witness:
  "BNode ''b'' \<notin> serialized (ex_session {} 3)
   \<and> card (unvisited shared_graph (ex_session {} 3) - {BNode ''b''}) < 3
   \<and> (\<exists>r ys. subject 3 shared_graph (ex_session {} 3) (BNode ''b'') 1 = Some r
          \<and> out (session_of r) = (CHR 0x0A # ''  <div typeof=\"ex:T\" about=\"b\">'') # ys)
   \<and> card (unvisited single_graph (ex_session {} 3) - {BNode ''b''}) < 3
   \<and> (\<exists>r ys. subject 3 single_graph (ex_session {} 3) (BNode ''b'') 1 = Some r
          \<and> out (session_of r) = (CHR 0x0A # ''  <div typeof=\"ex:T\">'') # ys)"
proof -
  have h1: "BNode ''b'' \<notin> serialized (ex_session {} 3)"
    by (simp add: ex_session_def)
  have h2: "card (unvisited shared_graph (ex_session {} 3) - {BNode ''b''}) < 3"
    by (simp add: shared_graph_def ex_eval)
  have h3: "card (unvisited single_graph (ex_session {} 3) - {BNode ''b''}) < 3"
    by (simp add: single_graph_def ex_eval)
  have a: "\<exists>r ys. subject 3 shared_graph (ex_session {} 3) (BNode ''b'') 1 = Some r
          \<and> out (session_of r) = (CHR 0x0A # ''  <div typeof=\"ex:T\" about=\"b\">'') # ys"
    using blank_node_about_iff_shared [OF h1 h2, of 1]
    by (simp add: shared_graph_def ex_eval)
  have b: "\<exists>r ys. subject 3 single_graph (ex_session {} 3) (BNode ''b'') 1 = Some r
          \<and> out (session_of r) = (CHR 0x0A # ''  <div typeof=\"ex:T\">'') # ys"
    using blank_node_about_iff_shared [OF h1 h3, of 1]
    by (simp add: single_graph_def ex_eval)
  from h1 h2 h3 a b show ?thesis by blast
qed


text \<open>
  C7, as stated, fails for an IRI typed \<^verbatim>\<open>owl:Class\<close> that is also the head of a
  collection: the test of line 192 comes before the test of line 216, so the items of
  the collection are written and no reference element is.
\<close>

theorem class_typed_list_head_flattened:
  "is_URIRef (URIRef ''K'')
   \<and> (URIRef ''K'', RDF_type, OWL_Class) \<in> set (triples class_list_graph)
   \<and> map_option (\<lambda>r. (out (session_of r), serialized (session_of r)))
        (predicate 0 class_list_graph (ex_session {URIRef ''A''} 3) (URIRef ''p'') (URIRef ''K'') 2)
       = Some ([CHR 0x0A # ''    <div inlist=\"\" property=\"ex:p\" content=\"a\"></div>''],
               {URIRef ''A'', URIRef ''K'', Literal ''a'' None None})"
  by code_simp

text \<open>
  C7, amended. For an object that is an IRI typed \<^verbatim>\<open>owl:Class\<close> or
  \<^verbatim>\<open>rdfs:Class\<close> and is not the head of a collection, \<^verbatim>\<open>predicate\<close> writes the
  relation element with the attribute \<^verbatim>\<open>resource\<close> and visits nothing, whatever the
  depth, the limit and the fuel.
\<close>

theorem class_typed_iri_referenced:
  assumes "is_URIRef ob"
    and "(ob, RDF_type, OWL_Class) \<in> set (triples G) \<or> (ob, RDF_type, RDFS_Class) \<in> set (triples G)"
    and "\<not> is_collection_head G ob"
  shows "\<exists>st'. predicate f G st p ob depth = Some (Normal st')
           \<and> out st' = out st @ [rel_open (indent_of depth) (fst (getQName G st p True)),
                                  resource_attr (relativize st (term_str ob)), ''</div>'']
           \<and> serialized st' = serialized st"
proof -
  from assms(1,2) have c: "is_class_typed G ob" by (simp add: is_class_typed_iff)
  from assms(1) have nl: "\<not> is_Literal ob" by (cases ob) simp_all
  have "predicate f G st p ob depth
          = Some (Normal (write_str ''</div>''
              (write_str (resource_attr (relativize st (term_str ob))) (rel_begin G st p depth))))"
    using c nl assms(1,3)
    by (simp add: predicate.simps Let_def predicate_reference_URIRef)
  then show ?thesis by simp
qed

theorem class_typed_iri_referenced_witness:
  "is_URIRef (URIRef ''K'')
   \<and> (URIRef ''K'', RDF_type, OWL_Class) \<in> set (triples class_graph)
   \<and> \<not> is_collection_head class_graph (URIRef ''K'')
   \<and> (\<exists>st'. predicate 0 class_graph (ex_session {URIRef ''A''} 3) (URIRef ''p'') (URIRef ''K'') 2 = Some (Normal st')
         \<and> out st' = [CHR 0x0A # ''    <div rel=\"ex:p\"'', '' resource=\"K\">'', ''</div>'']
         \<and> serialized st' = {URIRef ''A''})"
proof -
  have h1: "is_URIRef (URIRef ''K'')" by simp
  have h2: "(URIRef ''K'', RDF_type, OWL_Class) \<in> set (triples class_graph)
            \<or> (URIRef ''K'', RDF_type, RDFS_Class) \<in> set (triples class_graph)"
    by (simp add: class_graph_def ex_graph_def)
  have h2': "(URIRef ''K'', RDF_type, OWL_Class) \<in> set (triples class_graph)"
    by (simp add: class_graph_def ex_graph_def)
  have h3: "\<not> is_collection_head class_graph (URIRef ''K'')"
    by (simp add: class_graph_def ex_eval2)
  from class_typed_iri_referenced [OF h1 h2 h3, of 0 "ex_session {URIRef ''A''} 3" "URIRef ''p''" 2] h1 h2' h3
  show ?thesis
    by (simp add: class_graph_def ex_eval2)
qed

text \<open>
  C6, as stated, fails for a blank node that is the head of a collection: it is not
  visited, has statements of its own and is the object of one statement, and what is
  written is the list of its items, not a block of its own.
\<close>

theorem single_use_list_head_flattened:
  "BNode ''l'' \<notin> serialized (ex_session {URIRef ''A''} 1)
   \<and> in_store list_graph (Some (BNode ''l''), None, None)
   \<and> length (subjects list_graph None (Some (BNode ''l''))) = 1
   \<and> \<not> 2 \<le> max_depth (ex_session {URIRef ''A''} 1)
   \<and> map_option (\<lambda>r. out (session_of r))
        (predicate 1 list_graph (ex_session {URIRef ''A''} 1) (URIRef ''items'') (BNode ''l'') 2)
       = Some [CHR 0x0A # ''    <div inlist=\"\" property=\"ex:items\" content=\"1\"></div>'',
               CHR 0x0A # ''    <div inlist=\"\" rel=\"ex:items\" resource=\"X\"></div>'',
               CHR 0x0A # ''    <div inlist=\"\" rel=\"ex:items\" resource=\"y\"></div>'']"
  by code_simp

text \<open>
  C6, amended. For an object that is a blank node, not visited, with a statement of its
  own, object of exactly one statement and not the head of a collection,
  \<^verbatim>\<open>predicate\<close>, with fuel enough and at any depth, has an outcome: the stream then
  continues with the relation element left open, the opening tag of the node without
  \<^verbatim>\<open>about\<close>, and, when the call returns, ends with the two closing tags; the node is
  visited.
\<close>

theorem single_use_blank_node_inlined:
  assumes "BNode b \<notin> serialized st"
    and "in_store G (Some (BNode b), None, None)"
    and "length (subjects G None (Some (BNode b))) = 1"
    and "\<not> is_collection_head G (BNode b)"
    and "card (unvisited G st) \<le> f"
  shows "\<exists>r ys. predicate f G st p (BNode b) depth = Some r
           \<and> out (session_of r)
               = out st @ [rel_open (indent_of depth) (fst (getQName G st p True)), ''>'',
                   open_plain (indent_of (depth + 1))
                     (fst (getQName G (snd (getQName G st p True))
                             (element_of G (subject_type G (BNode b))) True))] @ ys
           \<and> BNode b \<in> serialized (session_of r)
           \<and> (case r of
                 Normal st' \<Rightarrow>
                   \<exists>zs. ys = zs @ [close_block (indent_of (depth + 1)), indent_of depth, ''</div>'']
               | Raised e st' \<Rightarrow> True)"
proof -
  let ?st2 = "rel_begin G st p depth"
  let ?st3 = "write_str ''>'' ?st2"
  let ?open = "open_plain (indent_of (depth + 1))
                 (fst (getQName G (snd (getQName G st p True)) (element_of G (subject_type G (BNode b))) True))"
  have su: "single_use G ?st2 (BNode b)"
    using assms(1-3) by (simp add: single_use_def)
  have nct: "\<not> is_class_typed G (BNode b)"
    by (simp add: is_class_typed_def)
  have p: "predicate f G st p (BNode b) depth
             = after_inline (indent_of depth) (subject f G ?st3 (BNode b) (depth + 1))"
    using assms(1,2,4) su nct by (simp add: predicate.simps Let_def)
  have "BNode b \<in> unvisited G st"
    using assms(1,2) by (simp add: unvisited_def in_store_subject)
  then have "card (unvisited G st - {BNode b}) < card (unvisited G st)"
    by (intro card_Diff1_less) simp_all
  with assms(5) have fuel: "card (unvisited G ?st3 - {BNode b}) < f"
    by (simp add: unvisited_def)
  have nv: "BNode b \<notin> serialized ?st3"
    using assms(1) by simp
  from subject_unvisited [OF nv fuel, of "depth + 1"] obtain r0 ys0 where
    r0: "subject f G ?st3 (BNode b) (depth + 1) = Some r0"
    and o0: "out (session_of r0) = out (subject_open G ?st3 (BNode b) (depth + 1)) @ ys0"
    and v0: "BNode b \<in> serialized (session_of r0)"
    and c0: "case r0 of
               Normal st' \<Rightarrow> \<exists>zs. ys0 = zs @ [close_block (indent_of (depth + 1))]
             | Raised e st' \<Rightarrow> True"
    by blast
  have op: "out (subject_open G ?st3 (BNode b) (depth + 1))
              = out st @ [rel_open (indent_of depth) (fst (getQName G st p True)), ''>'', ?open]"
    using assms(3)
    by (simp add: subject_open_out_BNode subjects_length open_plain_def rel_begin_def split_beta)
  show ?thesis
  proof (cases r0)
    case (Normal s0)
    with c0 obtain zs where zs: "ys0 = zs @ [close_block (indent_of (depth + 1))]" by auto
    from p r0 Normal have
      "predicate f G st p (BNode b) depth
         = Some (Normal (write_str ''</div>'' (write_str (indent_of depth) s0)))"
      by (simp add: after_inline_Normal)
    moreover have "out (write_str ''</div>'' (write_str (indent_of depth) s0))
        = out st @ [rel_open (indent_of depth) (fst (getQName G st p True)), ''>'', ?open]
            @ (zs @ [close_block (indent_of (depth + 1)), indent_of depth, ''</div>''])"
      using o0 op zs Normal by simp
    moreover have "BNode b \<in> serialized (write_str ''</div>'' (write_str (indent_of depth) s0))"
      using v0 Normal by simp
    ultimately show ?thesis
      by (intro exI [of _ "Normal (write_str ''</div>'' (write_str (indent_of depth) s0))"]
            exI [of _ "zs @ [close_block (indent_of (depth + 1)), indent_of depth, ''</div>'']"])
         (simp del: append_assoc)
  next
    case (Raised e s0)
    from p r0 Raised have "predicate f G st p (BNode b) depth = Some (Raised e s0)"
      by (simp add: after_inline_Raised)
    moreover have "out s0
        = out st @ [rel_open (indent_of depth) (fst (getQName G st p True)), ''>'', ?open] @ ys0"
      using o0 op Raised by simp
    moreover have "BNode b \<in> serialized s0"
      using v0 Raised by simp
    ultimately show ?thesis
      by (intro exI [of _ "Raised e s0"] exI [of _ ys0]) simp
  qed
qed

theorem single_use_blank_node_inlined_witness:
  "BNode ''b'' \<notin> serialized (ex_session {URIRef ''A''} 1)
   \<and> in_store single_graph (Some (BNode ''b''), None, None)
   \<and> length (subjects single_graph None (Some (BNode ''b''))) = 1
   \<and> \<not> is_collection_head single_graph (BNode ''b'')
   \<and> card (unvisited single_graph (ex_session {URIRef ''A''} 1)) \<le> 1
   \<and> \<not> 2 \<le> max_depth (ex_session {URIRef ''A''} 1)
   \<and> (\<exists>r ys. predicate 1 single_graph (ex_session {URIRef ''A''} 1) (URIRef ''p'') (BNode ''b'') 2 = Some r
          \<and> out (session_of r)
              = [CHR 0x0A # ''    <div rel=\"ex:p\"'', ''>'', CHR 0x0A # ''      <div typeof=\"ex:T\">''] @ ys
          \<and> BNode ''b'' \<in> serialized (session_of r))"
proof -
  have h1: "BNode ''b'' \<notin> serialized (ex_session {URIRef ''A''} 1)"
    by (simp add: ex_session_def)
  have h2: "in_store single_graph (Some (BNode ''b''), None, None)"
    by (simp add: single_graph_def ex_eval2)
  have h3: "length (subjects single_graph None (Some (BNode ''b''))) = 1"
    by (simp add: single_graph_def ex_eval2)
  have h4: "\<not> is_collection_head single_graph (BNode ''b'')"
    by (simp add: single_graph_def ex_eval2)
  have h5: "card (unvisited single_graph (ex_session {URIRef ''A''} 1)) \<le> 1"
    by (simp add: single_graph_def ex_eval2)
  have h6: "\<not> 2 \<le> max_depth (ex_session {URIRef ''A''} 1)"
    by (simp add: ex_session_def)
  have "\<exists>r ys. predicate 1 single_graph (ex_session {URIRef ''A''} 1) (URIRef ''p'') (BNode ''b'') 2 = Some r
          \<and> out (session_of r)
              = [CHR 0x0A # ''    <div rel=\"ex:p\"'', ''>'', CHR 0x0A # ''      <div typeof=\"ex:T\">''] @ ys
          \<and> BNode ''b'' \<in> serialized (session_of r)"
    using single_use_blank_node_inlined [OF h1 h2 h3 h4 h5, of "URIRef ''p''" 2]
    by (simp add: single_graph_def ex_eval2 open_plain_def) blast
  with h1 h2 h3 h4 h5 h6 show ?thesis by blast
qed








text \<open>
  C2 does not hold of the code. The last loop of \<^verbatim>\<open>serialize\<close> calls
  \<^verbatim>\<open>self.subject(subject, 1)\<close> with the variable of the loop before, not with
  \<^verbatim>\<open>bnode\<close>. Here the last subject of the store is the IRI A, already visited: the two
  blank nodes, subjects of the store, are visited by no pass and have no block in the
  document.
\<close>

theorem sweep_leaves_blank_nodes:
  "BNode ''b1'' \<in> set (subjects cycle_graph None None)
   \<and> BNode ''b2'' \<in> set (subjects cycle_graph None None)
   \<and> map_option (\<lambda>r. (serialized (session_of r), concat (out (session_of r))))
        (serialize 3 (init cycle_graph 3) [] None [])
     = Some ({URIRef ''A''},
          ''<div xmlns=\"http://www.w3.org/1999/xhtml\"''
        @ CHR 0x0A # ''  xmlns:rdf=\"http://www.w3.org/1999/02/22-rdf-syntax-ns#\"''
        @ CHR 0x0A # ''  xmlns:ex=\"http://e/\">''
        @ CHR 0x0A # ''  <div typeof=\"rdfs:Resource\" about=\"A\">''
        @ CHR 0x0A # ''    <div property=\"ex:r\" content=\"x\"></div>''
        @ CHR 0x0A # ''  </div>''
        @ CHR 0x0A # ''</div>'')"
  by code_simp

end
